theory Spec2Isabelle
  imports Complex_Main
begin

section \<open>JavaScript values and objects\<close>

text \<open>
  The values that flow through \<open>generate_variants.ts\<close>: what \<open>JSON.parse\<close> can return,
  plus \<open>undefined\<close> (the value of a missing property). A number is a finite double; the
  program only compares numbers, never computes with them, so a number is modelled by the
  rational it denotes. An object is the list of its own properties in insertion order.
\<close>

datatype jsval =
    JUndefined
  | JNull
  | JBool bool
  | JNum rat
  | JStr string
  | JArr "jsval list"
  | JObj "(string \<times> jsval) list"

type_synonym obj = "(string \<times> jsval) list"

text \<open>
  Property read \<open>o[k]\<close>: the value of the own property, \<open>undefined\<close> when there is none.
  JavaScript goes on to \<open>Object.prototype\<close> when there is no own property, which gives a
  value for the two lower-case keys found there, \<open>constructor\<close> and \<open>__proto__\<close>; the
  model reads own properties only. Every key the source reads by name (\<open>description\<close>,
  \<open>price\<close>, \<open>name\<close>) is answered as in JavaScript.
\<close>

definition get_field :: "obj \<Rightarrow> string \<Rightarrow> jsval" where
  "get_field ob k = (case map_of ob k of None \<Rightarrow> JUndefined | Some v \<Rightarrow> v)"

text \<open>
  Property write \<open>o[k] = v\<close>: an existing property keeps its place and takes the new value,
  a new property is added after the others. Two things JavaScript does differently are
  not modelled: a write to \<open>__proto__\<close> goes to the setter of \<open>Object.prototype\<close> and
  adds no property, and keys that are array indices are listed before the others. The
  theorems about single fields are therefore stated for plain keys (\<open>plainKey\<close> below),
  and none of them depends on the order of the keys.
\<close>

fun set_field :: "string \<Rightarrow> jsval \<Rightarrow> obj \<Rightarrow> obj" where
  "set_field k v [] = [(k, v)]"
| "set_field k v ((k', v') # ob) =
     (if k' = k then (k, v) # ob else (k', v') # set_field k v ob)"

text \<open>\<open>k in o\<close> for own properties: the key is there, whatever its value (also \<open>undefined\<close>).\<close>

definition has_field :: "obj \<Rightarrow> string \<Rightarrow> bool" where
  "has_field ob k = (k \<in> fst ` set ob)"

text \<open>\<open>a ?? b\<close>: the right operand when the left one is \<open>null\<close> or \<open>undefined\<close>.\<close>

fun nullish :: "jsval \<Rightarrow> jsval \<Rightarrow> jsval" where
  "nullish JUndefined b = b"
| "nullish JNull b = b"
| "nullish a b = a"

text \<open>
  \<open>a > b\<close>. On two numbers it is their order; when either operand is \<open>undefined\<close> it is
  false (the comparison is with NaN). The price of an \<open>OptionValue\<close> is declared
  \<open>price?: number\<close>, so these are the cases the typed program meets; the coercions
  JavaScript applies to other operands are not modelled, and every theorem below that
  depends on a comparison assumes prices that are numbers or absent.
\<close>

fun js_gt :: "jsval \<Rightarrow> jsval \<Rightarrow> bool" where
  "js_gt (JNum a) (JNum b) = (a > b)"
| "js_gt _ _ = False"

text \<open>
  \<open>String.prototype.toLowerCase\<close> on ASCII strings: the letters A to Z are lower-cased
  and every other character is left as it is. JavaScript also lower-cases letters beyond
  ASCII; on a string with such a character the model is not JavaScript, and the theorems
  that compare lower-cased names or keys of the input assume ASCII (\<open>plainKey\<close>).
\<close>

definition lower_char :: "char \<Rightarrow> char" where
  "lower_char c =
     (case map_of (zip ''ABCDEFGHIJKLMNOPQRSTUVWXYZ'' ''abcdefghijklmnopqrstuvwxyz'') c of
        None \<Rightarrow> c
      | Some l \<Rightarrow> l)"

definition toLowerCase :: "string \<Rightarrow> string" where
  "toLowerCase s = map lower_char s"

section \<open>The data model of the source\<close>

text \<open>
  \<open>ProductOption.values\<close> is \<open>Array<string | OptionValue>\<close>: a bare label, or an object
  (an open-ended \<open>OptionValue\<close> with \<open>name\<close>, optional \<open>price\<close> and \<open>description\<close>, and
  any further keys). The test \<open>typeof value === 'object' && value !== null\<close> of the
  source tells the two apart.
\<close>

datatype optval = Label string | Override obj

record ProductOption =
  opt_name :: string
  opt_values :: "optval list"

record Product =
  prod_id :: rat
  prod_name :: string
  prod_options :: "ProductOption list"
  prod_description :: string

section \<open>generateCombinations\<close>

text \<open>
  The \<open>Object.keys(value).forEach\<close> loop of the object branch: each key is lower-cased,
  \<open>name\<close> and \<open>price\<close> are skipped, and the variant's property of the lower-cased key is
  set to \<open>value[sanitisedKey]\<close>, the override's property of the lower-cased key.
\<close>

definition copyKey :: "obj \<Rightarrow> string \<Rightarrow> obj \<Rightarrow> obj" where
  "copyKey val key variant =
     (let sanitisedKey = toLowerCase key in
      if sanitisedKey = ''name'' \<or> sanitisedKey = ''price'' then variant
      else set_field sanitisedKey (get_field val sanitisedKey) variant)"

definition copyKeys :: "obj \<Rightarrow> obj \<Rightarrow> obj" where
  "copyKeys val variant = fold (copyKey val) (map fst val) variant"

text \<open>
  The body of the innermost callback, for one existing combination and one value of the
  current option; \<open>uid\<close> is what \<open>randomUUID()\<close> returned for this call.
\<close>

definition baseVariant :: "string \<Rightarrow> Product \<Rightarrow> obj \<Rightarrow> obj" where
  "baseVariant uid product combination =
     set_field ''price'' (get_field combination ''price'')
       (set_field ''description''
          (nullish (get_field combination ''description'') (JStr (prod_description product)))
          (set_field ''parentProductName'' (JStr (prod_name product))
             (set_field ''parentProductId'' (JNum (prod_id product))
                (set_field ''id'' (JStr uid) combination))))"

definition updatePrice :: "obj \<Rightarrow> obj \<Rightarrow> obj" where
  "updatePrice val variant =
     (if get_field variant ''price'' = JUndefined
         \<or> js_gt (get_field val ''price'') (get_field variant ''price'')
      then set_field ''price'' (get_field val ''price'') variant
      else variant)"

definition buildVariant :: "string \<Rightarrow> Product \<Rightarrow> string \<Rightarrow> obj \<Rightarrow> optval \<Rightarrow> obj" where
  "buildVariant uid product optionName combination v =
     (let variant = baseVariant uid product combination in
      case v of
        Label s \<Rightarrow> set_field optionName (JStr s) variant
      | Override val \<Rightarrow>
          copyKeys val
            (updatePrice val (set_field optionName (get_field val ''name'') variant)))"

text \<open>
  \<open>randomUUID\<close> is the only effect: the state is the number of calls made so far, and
  \<open>uuid k\<close> is the identifier the \<open>k\<close>-th call returns. \<open>mapValues\<close> is
  \<open>option.values.map\<close>, \<open>flatMapCombinations\<close> is \<open>combinations.flatMap\<close>, and
  \<open>reduceOptions\<close> is \<open>product.options.reduce\<close>, each in the order JavaScript runs them.
\<close>

fun mapValues ::
  "(nat \<Rightarrow> string) \<Rightarrow> Product \<Rightarrow> string \<Rightarrow> obj \<Rightarrow> optval list \<Rightarrow> nat \<Rightarrow> obj list \<times> nat" where
  "mapValues uuid product optionName combination [] n = ([], n)"
| "mapValues uuid product optionName combination (v # vs) n =
     (let variant = buildVariant (uuid n) product optionName combination v;
          (rest, n') = mapValues uuid product optionName combination vs (Suc n)
      in (variant # rest, n'))"

fun flatMapCombinations ::
  "(nat \<Rightarrow> string) \<Rightarrow> Product \<Rightarrow> ProductOption \<Rightarrow> obj list \<Rightarrow> nat \<Rightarrow> obj list \<times> nat" where
  "flatMapCombinations uuid product option [] n = ([], n)"
| "flatMapCombinations uuid product option (c # cs) n =
     (let (here, n') = mapValues uuid product (toLowerCase (opt_name option)) c
                          (opt_values option) n;
          (rest, n'') = flatMapCombinations uuid product option cs n'
      in (here @ rest, n''))"

fun reduceOptions ::
  "(nat \<Rightarrow> string) \<Rightarrow> Product \<Rightarrow> ProductOption list \<Rightarrow> obj list \<Rightarrow> nat \<Rightarrow> obj list \<times> nat" where
  "reduceOptions uuid product [] combinations n = (combinations, n)"
| "reduceOptions uuid product (option # options) combinations n =
     (let (combinations', n') = flatMapCombinations uuid product option combinations n
      in reduceOptions uuid product options combinations' n')"

definition generateCombinations ::
  "(nat \<Rightarrow> string) \<Rightarrow> Product \<Rightarrow> nat \<Rightarrow> obj list \<times> nat" where
  "generateCombinations uuid product n =
     reduceOptions uuid product (prod_options product) [[]] n"

section \<open>main\<close>

text \<open>
  A value of the command line as \<open>minimist\<close> returns it: a string, or anything else (a
  number for \<open>--out=0\<close>, a boolean for a bare flag, an array for a repeated flag). \<open>main\<close>
  only tests such a value for truth and puts it into a template literal, so a value that
  is not a string is given by these two observations: whether it is truthy, and its text
  (\<open>7\<close> for the number that \<open>--name=007\<close> yields).
\<close>

datatype argval = ArgString string | ArgOther bool string

fun falsy :: "argval \<Rightarrow> bool" where
  "falsy (ArgString s) = (s = [])"
| "falsy (ArgOther truth text) = (truth = False)"

fun argText :: "argval \<Rightarrow> string" where
  "argText (ArgString s) = s"
| "argText (ArgOther truth text) = text"

text \<open>
  The parsed command line: each argument is there or missing. The module constants apply
  the defaults with \<open>??\<close>, which replaces only a missing argument: an argument given as
  the empty string stays empty.
\<close>

record Argv =
  argv_help :: "argval option"
  argv_h :: "argval option"
  argv_in :: "argval option"
  argv_out :: "argval option"
  argv_name :: "argval option"

definition INPUT_FILE_PATH :: "Argv \<Rightarrow> argval" where
  "INPUT_FILE_PATH argv =
     (case argv_in argv of None \<Rightarrow> ArgString ''./data/input-data.json'' | Some a \<Rightarrow> a)"

definition OUTPUT_DIR :: "Argv \<Rightarrow> argval" where
  "OUTPUT_DIR argv = (case argv_out argv of None \<Rightarrow> ArgString ''./results'' | Some a \<Rightarrow> a)"

definition OUTPUT_FILE_NAME :: "Argv \<Rightarrow> argval" where
  "OUTPUT_FILE_NAME argv =
     (case argv_name argv of
        None \<Rightarrow> ArgString ''generated-variants-with-base-data''
      | Some a \<Rightarrow> a)"

text \<open>\<open>argv?.help || argv?.h\<close>: some flag is there and truthy.\<close>

fun given :: "argval option \<Rightarrow> bool" where
  "given None = False"
| "given (Some a) = (if falsy a then False else True)"

text \<open>
  The surroundings of \<open>main\<close>, which belong to Node and not to this repository, are
  parameters: \<open>readFileSync\<close> returns the text of a file or throws (\<open>Inl\<close> the error);
  \<open>parseProducts\<close> stands for \<open>JSON.parse\<close> followed by the read of \<open>.products\<close>, and
  throws on text that is not JSON or has no array there; \<open>writeFileSync\<close> says, for a
  path, whether writing there throws (\<open>Some\<close> the error).
\<close>

record World =
  readFileSync :: "argval \<Rightarrow> string + string"
  parseProducts :: "string \<Rightarrow> string + Product list"
  writeFileSync :: "string \<Rightarrow> string option"

text \<open>
  What \<open>main\<close> prints: the help text (\<open>console.info\<close>), the configuration error
  (\<open>console.error\<close>, "Incorrect configuration of required arguments ..."), the failure
  message with the error caught (\<open>console.error\<close>, "Failed to run. ... Error returned:"),
  and the success message with the number of variants and the output file
  (\<open>console.info\<close>, "Script ran successfully, n variants generated at file").
\<close>

datatype message =
    HelpText
  | ConfigurationError
  | FailedToRun string
  | RanSuccessfully nat string

text \<open>
  What a run does: the messages in the order printed, and the calls of \<open>writeFileSync\<close>,
  each with its path, the variants handed over, and the error if the call threw.
\<close>

record Outcome =
  console :: "message list"
  writeCalls :: "(string \<times> obj list \<times> string option) list"

text \<open>\<open>inputJSON.products.flatMap((product) => generateCombinations(product))\<close>.\<close>

fun flatMapProducts :: "(nat \<Rightarrow> string) \<Rightarrow> Product list \<Rightarrow> nat \<Rightarrow> obj list \<times> nat" where
  "flatMapProducts uuid [] n = ([], n)"
| "flatMapProducts uuid (product # products) n =
     (let (here, n') = generateCombinations uuid product n;
          (rest, n'') = flatMapProducts uuid products n'
      in (here @ rest, n''))"

text \<open>The template literal \<open>`${OUTPUT_DIR}/${OUTPUT_FILE_NAME}.json`\<close>.\<close>

definition outputFile :: "Argv \<Rightarrow> string" where
  "outputFile argv =
     argText (OUTPUT_DIR argv) @ ''/'' @ argText (OUTPUT_FILE_NAME argv) @ ''.json''"

text \<open>
  \<open>main\<close>: the help branch prints and ends the process (\<open>process.exit()\<close>); the
  configuration check prints and goes on, since no \<open>return\<close> or exit follows it; the
  \<open>try\<close> block reads, parses, expands and writes, and the \<open>catch\<close> prints whatever was
  thrown. The text written is \<open>JSON.stringify(productVariants, null, 2)\<close>; the model keeps
  the variants themselves.
\<close>

definition main :: "(nat \<Rightarrow> string) \<Rightarrow> Argv \<Rightarrow> World \<Rightarrow> Outcome" where
  "main uuid argv world =
     (if given (argv_help argv) \<or> given (argv_h argv)
      then \<lparr>console = [HelpText], writeCalls = []\<rparr>
      else
        let checked = (if falsy (INPUT_FILE_PATH argv) \<or> falsy (OUTPUT_DIR argv)
                       then [ConfigurationError] else [])
        in case readFileSync world (INPUT_FILE_PATH argv) of
             Inl err \<Rightarrow> \<lparr>console = checked @ [FailedToRun err], writeCalls = []\<rparr>
           | Inr text \<Rightarrow>
               (case parseProducts world text of
                  Inl err \<Rightarrow> \<lparr>console = checked @ [FailedToRun err], writeCalls = []\<rparr>
                | Inr products \<Rightarrow>
                    let productVariants = fst (flatMapProducts uuid products 0)
                    in (case writeFileSync world (outputFile argv) of
                          Some err \<Rightarrow>
                            \<lparr>console = checked @ [FailedToRun err],
                             writeCalls = [(outputFile argv, productVariants, Some err)]\<rparr>
                        | None \<Rightarrow>
                            \<lparr>console = checked @
                               [RanSuccessfully (length productVariants) (outputFile argv)],
                             writeCalls = [(outputFile argv, productVariants, None)]\<rparr>)))"

section \<open>Paths: the vocabulary of the specification\<close>

text \<open>
  A path chooses one value for every option, in option order. \<open>choices\<close> lists the paths
  by nested iteration, the first option in the outer loop and the last one in the
  innermost: the lexicographic order of the value indices.
\<close>

fun choices :: "ProductOption list \<Rightarrow> optval list list" where
  "choices [] = [[]]"
| "choices (option # options) =
     concat (map (\<lambda>v. map (Cons v) (choices options)) (opt_values option))"


text \<open>
  The keys an object value puts on a variant: its own keys lower-cased, without \<open>name\<close>
  and \<open>price\<close>. A bare label puts none.
\<close>

definition attr_keys :: "obj \<Rightarrow> string set" where
  "attr_keys val = toLowerCase ` fst ` set val - {''name'', ''price''}"

fun attrs_of :: "optval \<Rightarrow> string set" where
  "attrs_of (Label s) = {}"
| "attrs_of (Override val) = attr_keys val"

text \<open>
  The variant along a path: the callback body applied option after option to the empty
  object, with the identifiers \<open>ids\<close> that \<open>randomUUID\<close> returned on the way.
\<close>

definition stepVariant :: "Product \<Rightarrow> obj \<Rightarrow> string \<times> ProductOption \<times> optval \<Rightarrow> obj" where
  "stepVariant product combination s =
     (case s of (uid, option, v) \<Rightarrow>
        buildVariant uid product (toLowerCase (opt_name option)) combination v)"

definition variantOfPath :: "Product \<Rightarrow> string list \<Rightarrow> optval list \<Rightarrow> obj" where
  "variantOfPath product ids path =
     foldl (stepVariant product) [] (zip ids (zip (prod_options product) path))"

text \<open>The fields every step of the expansion writes.\<close>

definition base_keys :: "string set" where
  "base_keys = {''id'', ''parentProductId'', ''parentProductName'', ''description'', ''price''}"

text \<open>
  Descriptions on a path. A value carries one when it is an object with its own
  \<open>description\<close>. \<open>firstDescription\<close> follows the specification's words (the first value
  on the path that carries one); \<open>lastDescription\<close> takes the last one instead. Both fall
  back to the product's description.
\<close>

fun carriesDescription :: "optval \<Rightarrow> bool" where
  "carriesDescription (Label s) = False"
| "carriesDescription (Override val) = has_field val ''description''"

fun descriptionOf :: "optval \<Rightarrow> jsval" where
  "descriptionOf (Label s) = JUndefined"
| "descriptionOf (Override val) = get_field val ''description''"

definition firstDescription :: "Product \<Rightarrow> optval list \<Rightarrow> jsval" where
  "firstDescription product path =
     (case filter carriesDescription path of
        [] \<Rightarrow> JStr (prod_description product)
      | v # vs \<Rightarrow> descriptionOf v)"

definition lastDescription :: "Product \<Rightarrow> optval list \<Rightarrow> jsval" where
  "lastDescription product path =
     (case filter carriesDescription path of
        [] \<Rightarrow> JStr (prod_description product)
      | v # vs \<Rightarrow> descriptionOf (last (v # vs)))"

text \<open>Prices on a path: the numbers that its object values carry as \<open>price\<close>.\<close>

fun priceOf :: "optval \<Rightarrow> rat option" where
  "priceOf (Label s) = None"
| "priceOf (Override val) = (case get_field val ''price'' of JNum x \<Rightarrow> Some x | _ \<Rightarrow> None)"

definition pricesOnPath :: "optval list \<Rightarrow> rat list" where
  "pricesOnPath path = List.map_filter priceOf path"

text \<open>The declared type of \<open>price\<close>: a number, or no price.\<close>

fun typedPrice :: "optval \<Rightarrow> bool" where
  "typedPrice (Label s) = True"
| "typedPrice (Override val) =
     (case get_field val ''price'' of JNum x \<Rightarrow> True | JUndefined \<Rightarrow> True | _ \<Rightarrow> False)"

text \<open>
  The declared type of \<open>description\<close>, and its spelling: a key of an object value that
  reads \<open>description\<close> in lower case is written so, and holds a string.
\<close>

fun typedDescription :: "optval \<Rightarrow> bool" where
  "typedDescription (Label s) = True"
| "typedDescription (Override val) =
     list_all (\<lambda>key. toLowerCase key = ''description'' \<longrightarrow>
                 key = ''description'' \<and>
                 (case get_field val ''description'' of JStr d \<Rightarrow> True | _ \<Rightarrow> False))
       (map fst val)"

text \<open>All values of all options of a product.\<close>

definition allValues :: "Product \<Rightarrow> optval list" where
  "allValues product = concat (map opt_values (prod_options product))"

definition optionNames :: "Product \<Rightarrow> string list" where
  "optionNames product = map (\<lambda>option. toLowerCase (opt_name option)) (prod_options product)"




section \<open>Example products\<close>

text \<open>A source of identifiers that never repeats.\<close>

definition uuid_stub :: "nat \<Rightarrow> string" where
  "uuid_stub n = replicate (Suc n) CHR ''u''"

text \<open>The product of the unit tests: two colours, two finishes with price and description.\<close>

definition mockProduct :: Product where
  "mockProduct =
     \<lparr>prod_id = 1, prod_name = ''Test Product'',
      prod_options =
        [\<lparr>opt_name = ''Color'', opt_values = [Label ''Red'', Label ''Blue'']\<rparr>,
         \<lparr>opt_name = ''Finish'', opt_values =
            [Override [(''name'', JStr ''360 wrap print''), (''price'', JNum 50),
                       (''description'', JStr ''Full wrap''), (''embossed'', JBool True)],
             Override [(''name'', JStr ''One-sided printing''), (''price'', JNum 45),
                       (''description'', JStr ''One side'')]]\<rparr>],
      prod_description = ''Test product description''\<rparr>"

text \<open>The same with a third option whose values have prices too (the highest-price test).\<close>

definition pricedProduct :: Product where
  "pricedProduct =
     mockProduct\<lparr>prod_options := prod_options mockProduct @
        [\<lparr>opt_name = ''Material'', opt_values =
            [Override [(''name'', JStr ''metal''), (''price'', JNum 70)],
             Override [(''name'', JStr ''plastic''), (''price'', JNum 65)]]\<rparr>]\<rparr>"

text \<open>Two options whose values both carry a description.\<close>

definition twoDescriptions :: Product where
  "twoDescriptions =
     \<lparr>prod_id = 2, prod_name = ''Card'',
      prod_options =
        [\<lparr>opt_name = ''Finish'', opt_values =
            [Override [(''name'', JStr ''Gloss''), (''description'', JStr ''Glossy finish'')]]\<rparr>,
         \<lparr>opt_name = ''Material'', opt_values =
            [Override [(''name'', JStr ''Metal''), (''description'', JStr ''Made of metal'')]]\<rparr>],
      prod_description = ''Plain card''\<rparr>"

text \<open>An option that is called Price, with bare labels.\<close>

definition optionNamedPrice :: Product where
  "optionNamedPrice =
     \<lparr>prod_id = 3, prod_name = ''Card'',
      prod_options = [\<lparr>opt_name = ''Price'', opt_values = [Label ''Budget'']\<rparr>],
      prod_description = ''Plain card''\<rparr>"

text \<open>A product without options.\<close>

definition noOptions :: Product where
  "noOptions =
     \<lparr>prod_id = 4, prod_name = ''Card'', prod_options = [], prod_description = ''Plain card''\<rparr>"

text \<open>An object value with an attribute whose key has an upper-case letter.\<close>

definition upperCaseKey :: Product where
  "upperCaseKey =
     \<lparr>prod_id = 5, prod_name = ''Card'',
      prod_options =
        [\<lparr>opt_name = ''Finish'', opt_values =
            [Override [(''name'', JStr ''Gloss''), (''Embossed'', JBool True)]]\<rparr>],
      prod_description = ''Plain card''\<rparr>"





text \<open>
  A disk that holds the default input file with an empty catalogue and accepts every
  write, as in the test of the successful execution; a command line with \<open>--out=\<close>, the
  output directory given as the empty string; and a command line with \<open>--help\<close>.
\<close>

definition emptyCatalogue :: World where
  "emptyCatalogue =
     \<lparr>readFileSync = (\<lambda>path. if path = ArgString ''./data/input-data.json''
                              then Inr ''{\"products\": []}'' else Inl ''ENOENT''),
      parseProducts = (\<lambda>text. if text = ''{\"products\": []}''
                               then Inr [] else Inl ''SyntaxError''),
      writeFileSync = (\<lambda>path. None)\<rparr>"

definition emptyOutputDirectory :: Argv where
  "emptyOutputDirectory =
     \<lparr>argv_help = None, argv_h = None, argv_in = None,
      argv_out = Some (ArgString []), argv_name = None\<rparr>"

definition helpRequested :: Argv where
  "helpRequested =
     \<lparr>argv_help = Some (ArgOther True ''true''), argv_h = None, argv_in = None,
      argv_out = Some (ArgString []), argv_name = None\<rparr>"

section \<open>How many variants\<close>

lemma mapValues_length:
  "length (fst (mapValues uuid p on c vs n)) = length vs"
  by (induction vs arbitrary: n) (simp_all add: Let_def case_prod_beta)

lemma flatMapCombinations_length:
  "length (fst (flatMapCombinations uuid p option cs n)) =
     length cs * length (opt_values option)"
  by (induction cs arbitrary: n) (simp_all add: Let_def case_prod_beta mapValues_length)

lemma reduceOptions_length:
  "length (fst (reduceOptions uuid p os cs n)) =
     length cs * prod_list (map (\<lambda>option. length (opt_values option)) os)"
proof (induction os arbitrary: cs n)
  case Nil
  show ?case by simp
next
  case (Cons option os)
  obtain cs' n' where step: "flatMapCombinations uuid p option cs n = (cs', n')"
    by (cases "flatMapCombinations uuid p option cs n")
  have "length cs' = length cs * length (opt_values option)"
    using flatMapCombinations_length[of uuid p option cs n] step by simp
  then show ?case
    using Cons.IH[of cs' n'] step by simp
qed

text \<open>
  C1. The number of variants of a product is the product of the numbers of values of its
  options; with no options it is 1, and with an option that has no values it is 0.
\<close>

theorem generateCombinations_count:
  "length (fst (generateCombinations uuid product n)) =
     prod_list (map (\<lambda>option. length (opt_values option)) (prod_options product))
   \<and> (prod_options product = [] \<longrightarrow> length (fst (generateCombinations uuid product n)) = 1)
   \<and> ((\<exists>option \<in> set (prod_options product). opt_values option = []) \<longrightarrow>
        length (fst (generateCombinations uuid product n)) = 0)"
proof -
  have count: "length (fst (generateCombinations uuid product n)) =
     prod_list (map (\<lambda>option. length (opt_values option)) (prod_options product))"
    by (simp add: generateCombinations_def reduceOptions_length)
  have zero: "prod_list (map (\<lambda>option. length (opt_values option)) (prod_options product)) = 0"
    if "\<exists>option \<in> set (prod_options product). opt_values option = []"
    using that by (auto simp: prod_list_zero_iff image_iff)
  show ?thesis using count zero by auto
qed

theorem generateCombinations_count_witness:
  "length (fst (generateCombinations uuid_stub mockProduct 0)) = 4
   \<and> length (fst (generateCombinations uuid_stub noOptions 0)) = 1
   \<and> length (fst (generateCombinations uuid_stub
        (mockProduct\<lparr>prod_options := prod_options mockProduct @
           [\<lparr>opt_name = ''Material'', opt_values = []\<rparr>]\<rparr>) 0)) = 0"
proof -
  have "length (fst (generateCombinations uuid_stub mockProduct 0)) = 4"
    using generateCombinations_count[of uuid_stub mockProduct 0]
    by (simp add: mockProduct_def)
  moreover have "length (fst (generateCombinations uuid_stub noOptions 0)) = 1"
    using generateCombinations_count[of uuid_stub noOptions 0]
    by (simp add: noOptions_def)
  moreover have "length (fst (generateCombinations uuid_stub
        (mockProduct\<lparr>prod_options := prod_options mockProduct @
           [\<lparr>opt_name = ''Material'', opt_values = []\<rparr>]\<rparr>) 0)) = 0"
    using generateCombinations_count[of uuid_stub
        "mockProduct\<lparr>prod_options := prod_options mockProduct @
           [\<lparr>opt_name = ''Material'', opt_values = []\<rparr>]\<rparr>" 0]
    by (simp add: mockProduct_def)
  ultimately show ?thesis by simp
qed

section \<open>Every variant is the variant of a path\<close>

lemma mapValues_rel:
  "list_all2 (\<lambda>c' x. \<exists>u. c' = buildVariant u p on c x) (fst (mapValues uuid p on c vs n)) vs"
  by (induction vs arbitrary: n) (auto simp: Let_def case_prod_beta)

lemma flatMapCombinations_rel:
  "list_all2 (\<lambda>c' (c, x). \<exists>u. c' = buildVariant u p (toLowerCase (opt_name option)) c x)
     (fst (flatMapCombinations uuid p option cs n)) (List.product cs (opt_values option))"
proof (induction cs arbitrary: n)
  case Nil
  show ?case by simp
next
  case (Cons c cs)
  have here: "list_all2 (\<lambda>c' (c, x). \<exists>u. c' = buildVariant u p (toLowerCase (opt_name option)) c x)
     (fst (mapValues uuid p (toLowerCase (opt_name option)) c (opt_values option) n))
     (map (Pair c) (opt_values option))"
    using mapValues_rel[of p "toLowerCase (opt_name option)" c uuid "opt_values option" n]
    by (simp add: list_all2_map2)
  have eq: "fst (flatMapCombinations uuid p option (c # cs) n) =
      fst (mapValues uuid p (toLowerCase (opt_name option)) c (opt_values option) n) @
      fst (flatMapCombinations uuid p option cs
             (snd (mapValues uuid p (toLowerCase (opt_name option)) c (opt_values option) n)))"
    by (simp add: Let_def case_prod_beta)
  show ?case
    unfolding eq List.product.simps
    by (rule list_all2_appendI[OF here Cons.IH])
qed

lemma product_append_left:
  "List.product (xs @ ys) zs = List.product xs zs @ List.product ys zs"
  by (induction xs) simp_all

lemma list_all2_product_row:
  assumes "list_all2 Q a (map (Pair c) vs)"
      and "list_all2 (\<lambda>v (c', t). P c' t v) r (List.product a ts)"
      and "\<And>c' x t v. Q c' (c, x) \<Longrightarrow> P c' t v \<Longrightarrow> P' c (x # t) v"
    shows "list_all2 (\<lambda>v (c, t). P' c t v) r (map (Pair c) (concat (map (\<lambda>x. map (Cons x) ts) vs)))"
  using assms(1,2)
proof (induction vs arbitrary: a r)
  case Nil
  then show ?case by simp
next
  case (Cons x vs)
  from Cons.prems(1) obtain a0 a' where a: "a = a0 # a'" and q: "Q a0 (c, x)"
    and rest: "list_all2 Q a' (map (Pair c) vs)"
    by (auto simp: list_all2_Cons2)
  from Cons.prems(2) obtain r1 r2 where r: "r = r1 @ r2"
    and r1: "list_all2 (\<lambda>v (c', t). P c' t v) r1 (map (Pair a0) ts)"
    and r2: "list_all2 (\<lambda>v (c', t). P c' t v) r2 (List.product a' ts)"
    unfolding a by (auto simp: list_all2_append2)
  have "list_all2 (\<lambda>v t. P a0 t v) r1 ts"
    using r1 by (simp add: list_all2_map2)
  then have "list_all2 (\<lambda>v t. P' c (x # t) v) r1 ts"
    by (rule list_all2_mono) (use q assms(3) in blast)
  then have first: "list_all2 (\<lambda>v (c, t). P' c t v) r1 (map (Pair c) (map (Cons x) ts))"
    by (simp add: list_all2_map2)
  have second: "list_all2 (\<lambda>v (c, t). P' c t v) r2
      (map (Pair c) (concat (map (\<lambda>x. map (Cons x) ts) vs)))"
    using Cons.IH[OF rest r2] .
  show ?case
    unfolding r using first second by (simp add: list_all2_appendI)
qed

lemma list_all2_product_chain:
  assumes "list_all2 Q cs' (List.product cs vs)"
      and "list_all2 (\<lambda>v (c', t). P c' t v) res (List.product cs' ts)"
      and "\<And>c' c x t v. Q c' (c, x) \<Longrightarrow> P c' t v \<Longrightarrow> P' c (x # t) v"
    shows "list_all2 (\<lambda>v (c, t). P' c t v) res
             (List.product cs (concat (map (\<lambda>x. map (Cons x) ts) vs)))"
  using assms(1,2)
proof (induction cs arbitrary: cs' res)
  case Nil
  then show ?case by simp
next
  case (Cons c cs)
  from Cons.prems(1) obtain a b where cs': "cs' = a @ b"
    and a: "list_all2 Q a (map (Pair c) vs)" and b: "list_all2 Q b (List.product cs vs)"
    by (auto simp: list_all2_append2)
  from Cons.prems(2) obtain r1 r2 where res: "res = r1 @ r2"
    and r1: "list_all2 (\<lambda>v (c', t). P c' t v) r1 (List.product a ts)"
    and r2: "list_all2 (\<lambda>v (c', t). P c' t v) r2 (List.product b ts)"
    unfolding cs' product_append_left by (auto simp: list_all2_append2)
  have first: "list_all2 (\<lambda>v (c, t). P' c t v) r1
      (map (Pair c) (concat (map (\<lambda>x. map (Cons x) ts) vs)))"
    using list_all2_product_row[OF a r1, of P'] assms(3) by blast
  have second: "list_all2 (\<lambda>v (c, t). P' c t v) r2
      (List.product cs (concat (map (\<lambda>x. map (Cons x) ts) vs)))"
    using Cons.IH[OF b r2] .
  show ?case
    unfolding res using first second by (simp add: list_all2_appendI)
qed

lemma reduceOptions_paths:
  "list_all2 (\<lambda>v (c, path). \<exists>ids. length ids = length os \<and>
                v = foldl (stepVariant p) c (zip ids (zip os path)))
     (fst (reduceOptions uuid p os cs n)) (List.product cs (choices os))"
proof (induction os arbitrary: cs n)
  case Nil
  have "list_all2 (\<lambda>v c. v = c) cs cs"
    by (simp add: list_all2_same)
  then show ?case
    by (simp add: list_all2_map2 product_concat_map)
next
  case (Cons option os)
  obtain cs' n' where step: "flatMapCombinations uuid p option cs n = (cs', n')"
    by (cases "flatMapCombinations uuid p option cs n")
  have q: "list_all2 (\<lambda>c' (c, x). \<exists>u. c' = buildVariant u p (toLowerCase (opt_name option)) c x)
     cs' (List.product cs (opt_values option))"
    using flatMapCombinations_rel[of p option uuid cs n] step by simp
  have ih: "list_all2 (\<lambda>v (c', path). \<exists>ids. length ids = length os \<and>
                v = foldl (stepVariant p) c' (zip ids (zip os path)))
     (fst (reduceOptions uuid p os cs' n')) (List.product cs' (choices os))"
    by (rule Cons.IH)
  have "list_all2 (\<lambda>v (c, path). \<exists>ids. length ids = length (option # os) \<and>
                v = foldl (stepVariant p) c (zip ids (zip (option # os) path)))
     (fst (reduceOptions uuid p os cs' n'))
     (List.product cs (concat (map (\<lambda>x. map (Cons x) (choices os)) (opt_values option))))"
  proof (rule list_all2_product_chain[OF q ih])
    fix c' c x t v
    assume "case (c, x) of (c, x) \<Rightarrow> \<exists>u. c' = buildVariant u p (toLowerCase (opt_name option)) c x"
      and "\<exists>ids. length ids = length os \<and> v = foldl (stepVariant p) c' (zip ids (zip os t))"
    then obtain u ids where c': "c' = buildVariant u p (toLowerCase (opt_name option)) c x"
      and ids: "length ids = length os" and v: "v = foldl (stepVariant p) c' (zip ids (zip os t))"
      by auto
    have "length (u # ids) = length (option # os)" using ids by simp
    moreover have "v = foldl (stepVariant p) c (zip (u # ids) (zip (option # os) (x # t)))"
      using v c' by (simp add: stepVariant_def)
    ultimately show "\<exists>ids. length ids = length (option # os) \<and>
        v = foldl (stepVariant p) c (zip ids (zip (option # os) (x # t)))"
      by blast
  qed
  then show ?case using step by simp
qed

lemma generated_paths:
  assumes "\<And>ids path. length ids = length (prod_options p) \<Longrightarrow>
             path \<in> set (choices (prod_options p)) \<Longrightarrow> P (variantOfPath p ids path) path"
  shows "list_all2 P (fst (generateCombinations uuid p n)) (choices (prod_options p))"
proof -
  let ?R = "\<lambda>v path. \<exists>ids. length ids = length (prod_options p) \<and>
              v = foldl (stepVariant p) [] (zip ids (zip (prod_options p) path))"
  have "list_all2 (\<lambda>v (c, path). \<exists>ids. length ids = length (prod_options p) \<and>
              v = foldl (stepVariant p) c (zip ids (zip (prod_options p) path)))
          (fst (generateCombinations uuid p n)) (map (Pair []) (choices (prod_options p)))"
    using reduceOptions_paths[of "prod_options p" p uuid "[[]]" n]
    by (simp add: generateCombinations_def)
  then have rel: "list_all2 ?R (fst (generateCombinations uuid p n)) (choices (prod_options p))"
    by (simp add: list_all2_map2)
  show ?thesis
    unfolding list_all2_conv_all_nth
  proof (intro conjI allI impI)
    show "length (fst (generateCombinations uuid p n)) = length (choices (prod_options p))"
      using rel by (rule list_all2_lengthD)
  next
    fix i assume i: "i < length (fst (generateCombinations uuid p n))"
    then have len: "i < length (choices (prod_options p))"
      using rel by (simp add: list_all2_lengthD)
    have "?R (fst (generateCombinations uuid p n) ! i) (choices (prod_options p) ! i)"
      using rel i by (simp add: list_all2_conv_all_nth)
    then obtain ids where "length ids = length (prod_options p)"
      and "fst (generateCombinations uuid p n) ! i =
             variantOfPath p ids (choices (prod_options p) ! i)"
      by (auto simp: variantOfPath_def)
    then show "P (fst (generateCombinations uuid p n) ! i) (choices (prod_options p) ! i)"
      using assms[of ids "choices (prod_options p) ! i"] len by simp
  qed
qed

lemma choices_product_lists:
  "choices os = product_lists (map opt_values os)"
  by (induction os) simp_all

lemma choices_member:
  "path \<in> set (choices os) \<Longrightarrow> list_all2 (\<lambda>v option. v \<in> set (opt_values option)) path os"
  by (induction os arbitrary: path) auto

text \<open>
  C8. The variants are listed in the order of the nested iteration: the variant at each
  position is the variant of the path at the same position of \<open>choices\<close>, where the first
  option varies slowest and the last one fastest.
\<close>

theorem generateCombinations_order:
  "list_all2 (\<lambda>variant path. \<exists>ids. length ids = length (prod_options product) \<and>
                variant = variantOfPath product ids path)
     (fst (generateCombinations uuid product n)) (choices (prod_options product))"
  by (rule generated_paths) blast

theorem generateCombinations_order_witness:
  "list_all2 (\<lambda>variant path. \<exists>ids. length ids = length (prod_options mockProduct) \<and>
                variant = variantOfPath mockProduct ids path)
     (fst (generateCombinations uuid_stub mockProduct 0)) (choices (prod_options mockProduct))"
  by (rule generateCombinations_order)

section \<open>The fields one step writes\<close>

lemma get_set_field:
  "get_field (set_field k v ob) k' = (if k' = k then v else get_field ob k')"
  by (induction ob) (auto simp: get_field_def)

lemma keys_set_field:
  "fst ` set (set_field k v ob) = insert k (fst ` set ob)"
proof (induction ob)
  case Nil
  show ?case by simp
next
  case (Cons a ob)
  obtain k' v' where a: "a = (k', v')" by (cases a)
  show ?case
  proof (cases "k' = k")
    case True
    then show ?thesis by (simp add: a)
  next
    case False
    then show ?thesis by (simp add: a Cons.IH insert_commute)
  qed
qed

lemma has_set_field:
  "has_field (set_field k v ob) k' = (k' = k \<or> has_field ob k')"
  by (simp add: has_field_def keys_set_field)

lemma fold_copyKey_get:
  "get_field (fold (copyKey val) ks variant) k =
     (if k \<in> toLowerCase ` set ks - {''name'', ''price''} then get_field val k
      else get_field variant k)"
  by (induction ks arbitrary: variant) (auto simp: copyKey_def Let_def get_set_field)

lemma fold_copyKey_has:
  "has_field (fold (copyKey val) ks variant) k =
     (k \<in> toLowerCase ` set ks - {''name'', ''price''} \<or> has_field variant k)"
  by (induction ks arbitrary: variant) (auto simp: copyKey_def Let_def has_set_field)

lemma copyKeys_get:
  "get_field (copyKeys val variant) k =
     (if k \<in> attr_keys val then get_field val k else get_field variant k)"
  by (simp add: copyKeys_def attr_keys_def fold_copyKey_get)

lemma copyKeys_has:
  "has_field (copyKeys val variant) k = (k \<in> attr_keys val \<or> has_field variant k)"
  by (simp add: copyKeys_def attr_keys_def fold_copyKey_has)

lemma updatePrice_get_other:
  "k \<noteq> ''price'' \<Longrightarrow> get_field (updatePrice val variant) k = get_field variant k"
  by (simp add: updatePrice_def get_set_field)

lemma updatePrice_has:
  "has_field variant ''price'' \<Longrightarrow> has_field (updatePrice val variant) k = has_field variant k"
  by (auto simp: updatePrice_def has_set_field)

lemma baseVariant_get:
  "get_field (baseVariant u p c) k =
     (if k = ''price'' then get_field c ''price''
      else if k = ''description''
        then nullish (get_field c ''description'') (JStr (prod_description p))
      else if k = ''parentProductName'' then JStr (prod_name p)
      else if k = ''parentProductId'' then JNum (prod_id p)
      else if k = ''id'' then JStr u
      else get_field c k)"
  by (simp add: baseVariant_def get_set_field)

lemma baseVariant_has:
  "has_field (baseVariant u p c) k = (k \<in> base_keys \<or> has_field c k)"
  by (auto simp: baseVariant_def has_set_field base_keys_def)

lemma buildVariant_has:
  "has_field (buildVariant u p on c v) k =
     (k \<in> base_keys \<or> k = on \<or> k \<in> attrs_of v \<or> has_field c k)"
proof (cases v)
  case (Label s)
  then show ?thesis
    by (auto simp: buildVariant_def has_set_field baseVariant_has)
next
  case (Override val)
  have "has_field (set_field on (get_field val ''name'') (baseVariant u p c)) ''price''"
    by (simp add: has_set_field baseVariant_has base_keys_def)
  then show ?thesis
    using Override
    by (auto simp: buildVariant_def copyKeys_has updatePrice_has has_set_field baseVariant_has)
qed



lemma lower_char_not_upper: "lower_char c \<noteq> CHR ''P''"
  by (auto simp: lower_char_def split: if_splits)

lemma toLowerCase_not_parent:
  "toLowerCase s \<noteq> ''parentProductId''" "toLowerCase s \<noteq> ''parentProductName''"
proof -
  have "CHR ''P'' \<notin> lower_char ` set s"
    using lower_char_not_upper by (metis imageE)
  then have "CHR ''P'' \<notin> set (toLowerCase s)"
    by (simp add: toLowerCase_def)
  then show "toLowerCase s \<noteq> ''parentProductId''" "toLowerCase s \<noteq> ''parentProductName''"
    by auto
qed





section \<open>The fields along a path\<close>



lemma zip_steps:
  assumes "length ids = length os" "length path = length os"
  shows "map (\<lambda>s. snd (snd s)) (zip ids (zip os path)) = path"
    and "map (\<lambda>s. fst (snd s)) (zip ids (zip os path)) = os"
    and "length (zip ids (zip os path)) = length os"
proof -
  have "map snd (zip ids (zip os path)) = zip os path"
    using assms by simp
  then have a: "map (\<lambda>s. snd (snd s)) (zip ids (zip os path)) = map snd (zip os path)"
    and b: "map (\<lambda>s. fst (snd s)) (zip ids (zip os path)) = map fst (zip os path)"
    by (metis (no_types, lifting) map_map comp_apply map_eq_conv)+
  show "map (\<lambda>s. snd (snd s)) (zip ids (zip os path)) = path" using a assms by simp
  show "map (\<lambda>s. fst (snd s)) (zip ids (zip os path)) = os" using b assms by simp
  show "length (zip ids (zip os path)) = length os" using assms by simp
qed


lemma choices_allValues:
  assumes "path \<in> set (choices (prod_options p))" "k < length (prod_options p)"
  shows "length path = length (prod_options p)"
    and "path ! k \<in> set (opt_values (prod_options p ! k))"
    and "path ! k \<in> set (allValues p)"
proof -
  have rel: "list_all2 (\<lambda>v option. v \<in> set (opt_values option)) path (prod_options p)"
    using assms(1) by (rule choices_member)
  show len: "length path = length (prod_options p)"
    using rel by (rule list_all2_lengthD)
  show mem: "path ! k \<in> set (opt_values (prod_options p ! k))"
    using rel assms(2) len by (simp add: list_all2_conv_all_nth)
  have "prod_options p ! k \<in> set (prod_options p)"
    using assms(2) by simp
  then show "path ! k \<in> set (allValues p)"
    using mem by (auto simp: allValues_def)
qed

lemma path_values:
  assumes "path \<in> set (choices (prod_options p))" "v \<in> set path"
  shows "v \<in> set (allValues p)"
proof -
  obtain k where k: "k < length path" "path ! k = v"
    using assms(2) by (auto simp: in_set_conv_nth)
  have "length path = length (prod_options p)"
    using choices_member[OF assms(1)] by (rule list_all2_lengthD)
  then show ?thesis
    using choices_allValues(3)[OF assms(1), of k] k by simp
qed

lemma steps_members:
  assumes ids: "length ids = length (prod_options p)"
      and path: "path \<in> set (choices (prod_options p))"
      and s: "s \<in> set (zip ids (zip (prod_options p) path))"
    shows "fst (snd s) \<in> set (prod_options p)" and "snd (snd s) \<in> set (allValues p)"
proof -
  have len: "length path = length (prod_options p)"
    using choices_member[OF path] by (rule list_all2_lengthD)
  have "fst (snd s) \<in> set (map (\<lambda>s. fst (snd s)) (zip ids (zip (prod_options p) path)))"
    using s by simp
  then show "fst (snd s) \<in> set (prod_options p)"
    unfolding zip_steps(2)[OF ids len] .
  have "snd (snd s) \<in> set (map (\<lambda>s. snd (snd s)) (zip ids (zip (prod_options p) path)))"
    using s by simp
  then have "snd (snd s) \<in> set path"
    unfolding zip_steps(1)[OF ids len] .
  then show "snd (snd s) \<in> set (allValues p)"
    using path_values[OF path] by blast
qed

section \<open>One field for every option\<close>





section \<open>Where an attribute appears\<close>




section \<open>The description of a variant\<close>

lemma toLowerCase_description: "toLowerCase ''description'' = ''description''"
  by (simp add: toLowerCase_def lower_char_def)

lemma carrier_attr:
  "carriesDescription v \<Longrightarrow> ''description'' \<in> attrs_of v"
proof (cases v)
  case (Label s)
  then show "carriesDescription v \<Longrightarrow> ?thesis" by simp
next
  case (Override val)
  assume "carriesDescription v"
  then have "''description'' \<in> fst ` set val"
    using Override by (simp add: has_field_def)
  then have "toLowerCase ''description'' \<in> toLowerCase ` fst ` set val"
    by (rule imageI)
  then show ?thesis
    using Override by (simp add: attr_keys_def toLowerCase_description)
qed

lemma typedDescription_key:
  assumes "typedDescription (Override val)" "key \<in> fst ` set val"
      and "toLowerCase key = ''description''"
    shows "key = ''description''" and "\<exists>d. get_field val ''description'' = JStr d"
proof -
  have "\<forall>key \<in> set (map fst val). toLowerCase key = ''description'' \<longrightarrow>
      key = ''description'' \<and>
      (case get_field val ''description'' of JStr d \<Rightarrow> True | _ \<Rightarrow> False)"
    using assms(1) by (simp only: typedDescription.simps list_all_iff)
  moreover have "key \<in> set (map fst val)"
    using assms(2) by simp
  ultimately have both: "key = ''description'' \<and>
      (case get_field val ''description'' of JStr d \<Rightarrow> True | _ \<Rightarrow> False)"
    using assms(3) by blast
  show "key = ''description''" using both by (rule conjunct1)
  have "case get_field val ''description'' of JStr d \<Rightarrow> True | _ \<Rightarrow> False"
    using both by (rule conjunct2)
  then show "\<exists>d. get_field val ''description'' = JStr d"
    by (cases "get_field val ''description''") simp_all
qed

lemma typed_noncarrier:
  assumes "typedDescription v" "\<not> carriesDescription v"
  shows "''description'' \<notin> attrs_of v"
proof (cases v)
  case (Label s)
  then show ?thesis by simp
next
  case (Override val)
  show ?thesis
  proof
    assume "''description'' \<in> attrs_of v"
    then have "''description'' \<in> toLowerCase ` fst ` set val"
      using Override by (simp add: attr_keys_def)
    then obtain key where "''description'' = toLowerCase key" and "key \<in> fst ` set val"
      by (rule imageE)
    then have key: "key \<in> fst ` set val" "toLowerCase key = ''description''"
      by simp_all
    have "key = ''description''"
      using typedDescription_key(1)[OF assms(1)[unfolded Override] key] .
    then have "has_field val ''description''"
      using key(1) by (simp add: has_field_def)
    then show False
      using assms(2) Override by simp
  qed
qed

lemma typed_carrier:
  assumes "typedDescription v" "carriesDescription v"
  shows "\<exists>d. descriptionOf v = JStr d"
proof (cases v)
  case (Label s)
  then show ?thesis using assms(2) by simp
next
  case (Override val)
  have "''description'' \<in> fst ` set val"
    using assms(2) Override by (simp add: has_field_def)
  then have "\<exists>d. get_field val ''description'' = JStr d"
    using typedDescription_key(2)[OF assms(1)[unfolded Override] _ toLowerCase_description]
    by blast
  then show ?thesis
    using Override by simp
qed

lemma lastDescription_alt:
  "lastDescription p path =
     (if filter carriesDescription path = [] then JStr (prod_description p)
      else descriptionOf (last (filter carriesDescription path)))"
  by (simp add: lastDescription_def split: list.splits)

lemma lastDescription_snoc:
  "lastDescription p (path @ [v]) =
     (if carriesDescription v then descriptionOf v else lastDescription p path)"
  by (simp add: lastDescription_alt)

lemma lastDescription_string:
  "\<forall>v \<in> set path. typedDescription v \<Longrightarrow> \<exists>d. lastDescription p path = JStr d"
proof (induction path rule: rev_induct)
  case Nil
  show ?case by (simp add: lastDescription_def)
next
  case (snoc v path)
  show ?case
  proof (cases "carriesDescription v")
    case True
    moreover have "typedDescription v" using snoc.prems by simp
    ultimately show ?thesis
      using typed_carrier[of v] by (simp add: lastDescription_snoc)
  next
    case False
    moreover have "\<forall>v \<in> set path. typedDescription v" using snoc.prems by simp
    ultimately show ?thesis
      using snoc.IH by (simp add: lastDescription_snoc)
  qed
qed

lemma buildVariant_get_description:
  assumes "on \<noteq> ''description''"
  shows "get_field (buildVariant u p on c v) ''description'' =
     (if ''description'' \<in> attrs_of v then descriptionOf v
      else nullish (get_field c ''description'') (JStr (prod_description p)))"
  using assms
  by (cases v) (simp_all add: buildVariant_def copyKeys_get updatePrice_get_other
      get_set_field baseVariant_get)

lemma steps_description:
  assumes "\<forall>(u, option, v) \<in> set steps.
             toLowerCase (opt_name option) \<noteq> ''description'' \<and> typedDescription v"
      and "steps \<noteq> []"
    shows "get_field (foldl (stepVariant p) [] steps) ''description'' =
             lastDescription p (map (\<lambda>s. snd (snd s)) steps)"
  using assms
proof (induction steps rule: rev_induct)
  case Nil
  then show ?case by simp
next
  case (snoc s steps)
  obtain u option v where s: "s = (u, option, v)" by (cases s)
  have on: "toLowerCase (opt_name option) \<noteq> ''description''" and typed: "typedDescription v"
    using snoc.prems(1) by (auto simp: s)
  let ?c = "foldl (stepVariant p) [] steps"
  let ?path = "map (\<lambda>s. snd (snd s)) steps"
  have before: "nullish (get_field ?c ''description'') (JStr (prod_description p)) =
      lastDescription p ?path"
  proof (cases "steps = []")
    case True
    then show ?thesis by (simp add: get_field_def lastDescription_def)
  next
    case False
    have ih: "get_field ?c ''description'' = lastDescription p ?path"
      using snoc.IH snoc.prems(1) False by simp
    have "\<forall>v \<in> set ?path. typedDescription v"
      using snoc.prems(1) by auto
    then obtain d where "lastDescription p ?path = JStr d"
      using lastDescription_string by blast
    then show ?thesis using ih by simp
  qed
  have "get_field (buildVariant u p (toLowerCase (opt_name option)) ?c v) ''description'' =
      lastDescription p (?path @ [v])"
  proof (cases "carriesDescription v")
    case True
    then show ?thesis
      using carrier_attr[OF True]
      by (simp add: buildVariant_get_description[OF on] lastDescription_snoc)
  next
    case False
    then show ?thesis
      using typed_noncarrier[OF typed False] before
      by (simp add: buildVariant_get_description[OF on] lastDescription_snoc)
  qed
  moreover have "stepVariant p ?c (u, option, v) =
      buildVariant u p (toLowerCase (opt_name option)) ?c v"
    by (simp add: stepVariant_def)
  ultimately show ?case
    by (simp add: s)
qed

text \<open>
  C2, as amended. For a product with at least one option, no option named
  \<open>description\<close> in lower case, and object values whose \<open>description\<close> key is spelled in
  lower case and holds a string: the description of every variant is the description of
  the last value on its path that carries one, and the product's description when no
  value on the path carries one. A later option's description overwrites an earlier one:
  in \<open>twoDescriptions\<close> the first value on the path says "Glossy finish" and the variant
  says "Made of metal".
\<close>

theorem description_last_wins:
  assumes "prod_options product \<noteq> []"
      and "''description'' \<notin> set (optionNames product)"
      and "\<forall>v \<in> set (allValues product). typedDescription v"
    shows "list_all2 (\<lambda>variant path. get_field variant ''description'' = lastDescription product path)
             (fst (generateCombinations uuid product n)) (choices (prod_options product))"
proof (rule generated_paths)
  fix ids :: "string list" and path
  assume ids: "length ids = length (prod_options product)"
    and path: "path \<in> set (choices (prod_options product))"
  define steps where "steps = zip ids (zip (prod_options product) path)"
  have len: "length path = length (prod_options product)"
    using choices_member[OF path] by (rule list_all2_lengthD)
  have nonempty: "steps \<noteq> []"
    using assms(1) ids len by (cases ids; cases "prod_options product"; cases path)
      (simp_all add: steps_def)
  have typed: "\<forall>(u, option, v) \<in> set steps.
      toLowerCase (opt_name option) \<noteq> ''description'' \<and> typedDescription v"
  proof (clarify, rule conjI)
    fix u option v assume mem: "(u, option, v) \<in> set steps"
    have "option \<in> set (prod_options product)" "v \<in> set (allValues product)"
      using steps_members[OF ids path mem[unfolded steps_def]] by simp_all
    then have "toLowerCase (opt_name option) \<in> set (optionNames product)"
      and "typedDescription v"
      using assms(3) by (simp_all add: optionNames_def)
    then show "toLowerCase (opt_name option) \<noteq> ''description''" "typedDescription v"
      using assms(2) by auto
  qed
  have "get_field (foldl (stepVariant product) [] steps) ''description'' =
      lastDescription product (map (\<lambda>s. snd (snd s)) steps)"
    using steps_description[OF typed nonempty] .
  then show "get_field (variantOfPath product ids path) ''description'' =
      lastDescription product path"
    using zip_steps(1)[OF ids len] by (simp add: variantOfPath_def steps_def)
qed

theorem description_last_wins_witness:
  "prod_options twoDescriptions \<noteq> [] \<and> ''description'' \<notin> set (optionNames twoDescriptions)
   \<and> list_all2 (\<lambda>variant path.
         get_field variant ''description'' = lastDescription twoDescriptions path)
       (fst (generateCombinations uuid_stub twoDescriptions 0))
       (choices (prod_options twoDescriptions))"
proof -
  have h1: "prod_options twoDescriptions \<noteq> []"
    by (simp add: twoDescriptions_def)
  have h2: "''description'' \<notin> set (optionNames twoDescriptions)"
    by (simp add: optionNames_def twoDescriptions_def toLowerCase_def lower_char_def)
  have h3: "\<forall>v \<in> set (allValues twoDescriptions). typedDescription v"
    by (simp add: allValues_def twoDescriptions_def toLowerCase_def lower_char_def get_field_def)
  show ?thesis
    using description_last_wins[OF h1 h2 h3, of uuid_stub 0] h1 h2 by simp
qed

theorem description_first_counterexample:
  "firstDescription twoDescriptions (choices (prod_options twoDescriptions) ! 0) =
     JStr ''Glossy finish''
   \<and> get_field (fst (generateCombinations uuid_stub twoDescriptions 0) ! 0) ''description'' =
       JStr ''Made of metal''"
  by (simp add: generateCombinations_def twoDescriptions_def uuid_stub_def buildVariant_def
      baseVariant_def updatePrice_def copyKeys_def copyKey_def get_field_def has_field_def
      firstDescription_def toLowerCase_def lower_char_def)

section \<open>The price of a variant\<close>

lemma pricesOnPath_snoc:
  "pricesOnPath (path @ [v]) =
     pricesOnPath path @ (case priceOf v of None \<Rightarrow> [] | Some x \<Rightarrow> [x])"
  by (simp add: pricesOnPath_def map_filter_def split: option.splits)

lemma updatePrice_get_price:
  "get_field (updatePrice val variant) ''price'' =
     (if get_field variant ''price'' = JUndefined
         \<or> js_gt (get_field val ''price'') (get_field variant ''price'')
      then get_field val ''price'' else get_field variant ''price'')"
  by (simp add: updatePrice_def get_set_field)

lemma price_not_attr: "''price'' \<notin> attr_keys val"
  by (simp add: attr_keys_def)

lemma buildVariant_get_price:
  assumes "on \<noteq> ''price''"
  shows "get_field (buildVariant u p on c v) ''price'' =
     (case v of
        Label s \<Rightarrow> get_field c ''price''
      | Override val \<Rightarrow>
          if get_field c ''price'' = JUndefined
             \<or> js_gt (get_field val ''price'') (get_field c ''price'')
          then get_field val ''price'' else get_field c ''price'')"
  using assms
  by (cases v) (simp_all add: buildVariant_def copyKeys_get price_not_attr
      updatePrice_get_price get_set_field baseVariant_get)

lemma Max_snoc:
  "ps \<noteq> [] \<Longrightarrow> Max (set (ps @ [x])) = max x (Max (set ps))"
  by (simp add: Max_insert)

lemma steps_price:
  assumes "\<forall>(u, option, v) \<in> set steps.
             toLowerCase (opt_name option) \<noteq> ''price'' \<and> typedPrice v"
    shows "get_field (foldl (stepVariant p) [] steps) ''price'' =
             (if pricesOnPath (map (\<lambda>s. snd (snd s)) steps) = [] then JUndefined
              else JNum (Max (set (pricesOnPath (map (\<lambda>s. snd (snd s)) steps)))))"
  using assms
proof (induction steps rule: rev_induct)
  case Nil
  show ?case by (simp add: get_field_def pricesOnPath_def)
next
  case (snoc s steps)
  obtain u option v where s: "s = (u, option, v)" by (cases s)
  have on: "toLowerCase (opt_name option) \<noteq> ''price''" and typed: "typedPrice v"
    using snoc.prems by (auto simp: s)
  define c where "c = foldl (stepVariant p) [] steps"
  define ps where "ps = pricesOnPath (map (\<lambda>s. snd (snd s)) steps)"
  have ih: "get_field c ''price'' = (if ps = [] then JUndefined else JNum (Max (set ps)))"
    using snoc.IH snoc.prems by (simp add: c_def ps_def)
  have fold: "foldl (stepVariant p) [] (steps @ [s]) =
      buildVariant u p (toLowerCase (opt_name option)) c v"
    by (simp add: s c_def stepVariant_def)
  have ps': "pricesOnPath (map (\<lambda>s. snd (snd s)) (steps @ [s])) =
      ps @ (case priceOf v of None \<Rightarrow> [] | Some x \<Rightarrow> [x])"
    by (simp add: s ps_def pricesOnPath_snoc)
  have "get_field (buildVariant u p (toLowerCase (opt_name option)) c v) ''price'' =
      (if ps @ (case priceOf v of None \<Rightarrow> [] | Some x \<Rightarrow> [x]) = [] then JUndefined
       else JNum (Max (set (ps @ (case priceOf v of None \<Rightarrow> [] | Some x \<Rightarrow> [x])))))"
  proof (cases v)
    case (Label l)
    then show ?thesis
      using ih by (simp add: buildVariant_get_price[OF on])
  next
    case (Override val)
    show ?thesis
    proof (cases "get_field val ''price''")
      case JUndefined
      then show ?thesis
        using ih Override by (simp add: buildVariant_get_price[OF on])
    next
      case (JNum x)
      show ?thesis
      proof (cases "ps = []")
        case True
        then show ?thesis
          using ih Override JNum by (simp add: buildVariant_get_price[OF on])
      next
        case False
        define m where "m = Max (set ps)"
        have "get_field c ''price'' = JNum m"
          using ih False by (simp add: m_def)
        then have val: "get_field (buildVariant u p (toLowerCase (opt_name option)) c v)
            ''price'' = JNum (max x m)"
          using Override JNum by (simp add: buildVariant_get_price[OF on] max_def)
        have goal: "get_field (buildVariant u p (toLowerCase (opt_name option)) c v)
            ''price'' = JNum (Max (set (ps @ [x])))"
          unfolding Max_snoc[OF False] using val by (simp only: m_def)
        have pv: "priceOf v = Some x"
          using Override JNum by simp
        show ?thesis
          unfolding pv by (simp add: goal)
      qed
    qed (use typed Override in simp_all)
  qed
  then show ?case
    unfolding fold ps' .
qed

text \<open>
  C3, as amended. For a product with no option named \<open>price\<close> in lower case, whose
  object values have a number as \<open>price\<close> or none: the price of every variant is the
  maximum of the prices that the values on its path carry, and a variant whose path
  carries no price has none (\<open>undefined\<close>). An option that is itself called Price
  writes its label into the field: in \<open>optionNamedPrice\<close> no value carries a price and the
  variant's \<open>price\<close> is the label "Budget".
\<close>

theorem price_is_maximum:
  assumes "''price'' \<notin> set (optionNames product)"
      and "\<forall>v \<in> set (allValues product). typedPrice v"
    shows "list_all2 (\<lambda>variant path.
               get_field variant ''price'' =
                 (if pricesOnPath path = [] then JUndefined
                  else JNum (Max (set (pricesOnPath path)))))
             (fst (generateCombinations uuid product n)) (choices (prod_options product))"
proof (rule generated_paths)
  fix ids :: "string list" and path
  assume ids: "length ids = length (prod_options product)"
    and path: "path \<in> set (choices (prod_options product))"
  define steps where "steps = zip ids (zip (prod_options product) path)"
  have len: "length path = length (prod_options product)"
    using choices_member[OF path] by (rule list_all2_lengthD)
  have typed: "\<forall>(u, option, v) \<in> set steps.
      toLowerCase (opt_name option) \<noteq> ''price'' \<and> typedPrice v"
  proof (clarify, rule conjI)
    fix u option v assume mem: "(u, option, v) \<in> set steps"
    have "option \<in> set (prod_options product)" "v \<in> set (allValues product)"
      using steps_members[OF ids path mem[unfolded steps_def]] by simp_all
    then have "toLowerCase (opt_name option) \<in> set (optionNames product)"
      and "typedPrice v"
      using assms(2) by (simp_all add: optionNames_def)
    then show "toLowerCase (opt_name option) \<noteq> ''price''" "typedPrice v"
      using assms(1) by auto
  qed
  show "get_field (variantOfPath product ids path) ''price'' =
      (if pricesOnPath path = [] then JUndefined else JNum (Max (set (pricesOnPath path))))"
    using steps_price[OF typed, of product] zip_steps(1)[OF ids len]
    by (simp add: variantOfPath_def steps_def)
qed

theorem price_is_maximum_witness:
  "''price'' \<notin> set (optionNames pricedProduct)
   \<and> map pricesOnPath (choices (prod_options pricedProduct)) =
       [[50, 70], [50, 65], [45, 70], [45, 65], [50, 70], [50, 65], [45, 70], [45, 65]]
   \<and> list_all2 (\<lambda>variant path.
         get_field variant ''price'' =
           (if pricesOnPath path = [] then JUndefined
            else JNum (Max (set (pricesOnPath path)))))
       (fst (generateCombinations uuid_stub pricedProduct 0))
       (choices (prod_options pricedProduct))"
proof -
  have h1: "''price'' \<notin> set (optionNames pricedProduct)"
    by (simp add: optionNames_def pricedProduct_def mockProduct_def toLowerCase_def
        lower_char_def)
  have h2: "\<forall>v \<in> set (allValues pricedProduct). typedPrice v"
    by (simp add: allValues_def pricedProduct_def mockProduct_def get_field_def)
  have paths: "map pricesOnPath (choices (prod_options pricedProduct)) =
      [[50, 70], [50, 65], [45, 70], [45, 65], [50, 70], [50, 65], [45, 70], [45, 65]]"
    by (simp add: pricedProduct_def mockProduct_def pricesOnPath_def get_field_def)
  show ?thesis
    using price_is_maximum[OF h1 h2, of uuid_stub 0] h1 paths by simp
qed

theorem price_counterexample:
  "pricesOnPath (choices (prod_options optionNamedPrice) ! 0) = []
   \<and> get_field (fst (generateCombinations uuid_stub optionNamedPrice 0) ! 0) ''price'' =
       JStr ''Budget''"
  by (simp add: generateCombinations_def optionNamedPrice_def uuid_stub_def buildVariant_def
      baseVariant_def get_field_def pricesOnPath_def toLowerCase_def lower_char_def)

section \<open>Two options of one name\<close>











section \<open>Base fields, copied attributes, and the run\<close>

lemma parent_not_attr:
  "''parentProductId'' \<notin> attrs_of v" "''parentProductName'' \<notin> attrs_of v"
proof -
  have "''parentProductId'' \<notin> attr_keys val" "''parentProductName'' \<notin> attr_keys val" for val
    by (auto simp: attr_keys_def toLowerCase_not_parent[THEN not_sym])
  then show "''parentProductId'' \<notin> attrs_of v" "''parentProductName'' \<notin> attrs_of v"
    by (cases v; simp)+
qed

lemma buildVariant_get_parent:
  "get_field (buildVariant u p (toLowerCase name) c v) ''parentProductId'' = JNum (prod_id p)"
  "get_field (buildVariant u p (toLowerCase name) c v) ''parentProductName'' = JStr (prod_name p)"
  using parent_not_attr[of v] toLowerCase_not_parent[of name]
  by (cases v; simp add: buildVariant_def copyKeys_get updatePrice_get_other get_set_field
      baseVariant_get)+

lemma base_fields_with_options:
  assumes "prod_options product \<noteq> []"
  shows "list_all2 (\<lambda>variant path.
             (\<forall>k \<in> base_keys. has_field variant k) \<and>
             get_field variant ''parentProductId'' = JNum (prod_id product) \<and>
             get_field variant ''parentProductName'' = JStr (prod_name product))
           (fst (generateCombinations uuid product n)) (choices (prod_options product))"
proof (rule generated_paths)
  fix ids :: "string list" and path
  assume ids: "length ids = length (prod_options product)"
    and path: "path \<in> set (choices (prod_options product))"
  define steps where "steps = zip ids (zip (prod_options product) path)"
  have len: "length path = length (prod_options product)"
    using choices_member[OF path] by (rule list_all2_lengthD)
  have "length steps = length (prod_options product)"
    using zip_steps(3)[OF ids len] by (simp add: steps_def)
  then have "steps \<noteq> []" using assms by auto
  then obtain s before where snoc: "steps = before @ [s]"
    by (metis rev_exhaust)
  obtain u option v where s: "s = (u, option, v)" by (cases s)
  have final: "foldl (stepVariant product) [] steps =
      buildVariant u product (toLowerCase (opt_name option))
        (foldl (stepVariant product) [] before) v"
    by (simp add: snoc s stepVariant_def)
  have "\<forall>k \<in> base_keys. has_field (foldl (stepVariant product) [] steps) k"
    unfolding final by (simp add: buildVariant_has)
  moreover have "get_field (foldl (stepVariant product) [] steps) ''parentProductId'' =
      JNum (prod_id product)"
    and "get_field (foldl (stepVariant product) [] steps) ''parentProductName'' =
      JStr (prod_name product)"
    unfolding final by (rule buildVariant_get_parent)+
  ultimately show "(\<forall>k \<in> base_keys. has_field (variantOfPath product ids path) k) \<and>
      get_field (variantOfPath product ids path) ''parentProductId'' = JNum (prod_id product) \<and>
      get_field (variantOfPath product ids path) ''parentProductName'' = JStr (prod_name product)"
    by (simp add: variantOfPath_def steps_def)
qed

text \<open>
  C4. Every variant is to have the base fields, also the single variant of a product
  without options. The base fields are written inside the callback, once per option, so
  a product with at least one option has them on every variant
  (\<open>base_fields_with_options\<close>); for a product without options the callback never runs
  and the result is the initial accumulator, one empty object: it has no \<open>id\<close>, no
  \<open>parentProductId\<close>, no \<open>parentProductName\<close> and no \<open>description\<close>.
\<close>

theorem no_options_empty_variant:
  "fst (generateCombinations uuid_stub noOptions 0) = [[]]
   \<and> \<not> has_field (fst (generateCombinations uuid_stub noOptions 0) ! 0) ''id''
   \<and> \<not> has_field (fst (generateCombinations uuid_stub noOptions 0) ! 0) ''parentProductId''
   \<and> \<not> has_field (fst (generateCombinations uuid_stub noOptions 0) ! 0) ''parentProductName''
   \<and> \<not> has_field (fst (generateCombinations uuid_stub noOptions 0) ! 0) ''description''"
  by (simp add: generateCombinations_def noOptions_def has_field_def)

text \<open>
  C5. An attribute of an object value is to be copied under its lower-cased key with its
  value unchanged. The loop lower-cases the key and then reads the value under the
  lower-cased key as well (\<open>value[sanitisedKey]\<close>, not \<open>value[key]\<close>): the attribute
  \<open>Embossed: true\<close> arrives on the variant as \<open>embossed: undefined\<close>.
\<close>

theorem upper_case_key_undefined:
  "Override [(''name'', JStr ''Gloss''), (''Embossed'', JBool True)]
     \<in> set (opt_values (prod_options upperCaseKey ! 0))
   \<and> fst (generateCombinations uuid_stub upperCaseKey 0) =
       [[(''id'', JStr ''u''), (''parentProductId'', JNum 5),
         (''parentProductName'', JStr ''Card''), (''description'', JStr ''Plain card''),
         (''price'', JUndefined), (''finish'', JStr ''Gloss''),
         (''embossed'', JUndefined)]]"
  by (simp add: generateCombinations_def upperCaseKey_def uuid_stub_def buildVariant_def
      baseVariant_def updatePrice_def copyKeys_def copyKey_def get_field_def
      toLowerCase_def lower_char_def)

lemma main_reports_what_is_thrown:
  assumes "given (argv_help argv) = False" and "given (argv_h argv) = False"
  shows "(falsy (INPUT_FILE_PATH argv) \<or> falsy (OUTPUT_DIR argv) \<longrightarrow>
            ConfigurationError \<in> set (console (main uuid argv world)))
       \<and> (\<forall>err. readFileSync world (INPUT_FILE_PATH argv) = Inl err \<longrightarrow>
            last (console (main uuid argv world)) = FailedToRun err
            \<and> writeCalls (main uuid argv world) = [])
       \<and> (\<forall>text err. readFileSync world (INPUT_FILE_PATH argv) = Inr text
              \<and> parseProducts world text = Inl err \<longrightarrow>
            last (console (main uuid argv world)) = FailedToRun err
            \<and> writeCalls (main uuid argv world) = [])
       \<and> (\<forall>text products err. readFileSync world (INPUT_FILE_PATH argv) = Inr text
              \<and> parseProducts world text = Inr products
              \<and> writeFileSync world (outputFile argv) = Some err \<longrightarrow>
            last (console (main uuid argv world)) = FailedToRun err)
       \<and> (\<forall>text products. readFileSync world (INPUT_FILE_PATH argv) = Inr text
              \<and> parseProducts world text = Inr products
              \<and> writeFileSync world (outputFile argv) = None \<longrightarrow>
            last (console (main uuid argv world)) =
              RanSuccessfully (length (fst (flatMapProducts uuid products 0))) (outputFile argv)
            \<and> writeCalls (main uuid argv world) =
                [(outputFile argv, fst (flatMapProducts uuid products 0), None)])"
  using assms by (auto simp: main_def Let_def split: sum.splits option.splits)

lemma main_empty_output_directory:
  assumes "given (argv_help argv) = False" and "given (argv_h argv) = False"
      and "falsy (INPUT_FILE_PATH argv) = False" and "OUTPUT_DIR argv = ArgString []"
      and "readFileSync world (INPUT_FILE_PATH argv) = Inr text"
      and "parseProducts world text = Inr products"
      and "writeFileSync world (outputFile argv) = None"
    shows "outputFile argv = ''/'' @ argText (OUTPUT_FILE_NAME argv) @ ''.json''"
      and "console (main uuid argv world) =
             [ConfigurationError,
              RanSuccessfully (length (fst (flatMapProducts uuid products 0))) (outputFile argv)]"
      and "writeCalls (main uuid argv world) =
             [(outputFile argv, fst (flatMapProducts uuid products 0), None)]"
  using assms by (simp_all add: main_def outputFile_def Let_def)

text \<open>
  C9. On a failure \<open>main\<close> is to print an error and end without writing output, and the
  source lists the empty input path and the empty output directory among the failures: it
  tests them first and prints the configuration error. Nothing stops the run there. With
  \<open>--out=\<close> and a readable catalogue the run prints the configuration error, then writes
  the variants to \<open>/generated-variants-with-base-data.json\<close> and prints the success
  message. The help branch, tested just before, does end the run: with \<open>--help\<close> on the
  same command line only the help text is printed.
\<close>

theorem main_goes_on_after_configuration_error:
  "OUTPUT_DIR emptyOutputDirectory = ArgString []
   \<and> main uuid_stub emptyOutputDirectory emptyCatalogue =
       \<lparr>console = [ConfigurationError,
                   RanSuccessfully 0 ''/generated-variants-with-base-data.json''],
        writeCalls = [(''/generated-variants-with-base-data.json'', [], None)]\<rparr>
   \<and> main uuid_stub helpRequested emptyCatalogue = \<lparr>console = [HelpText], writeCalls = []\<rparr>"
  by (simp add: main_def emptyOutputDirectory_def helpRequested_def emptyCatalogue_def
      INPUT_FILE_PATH_def OUTPUT_DIR_def OUTPUT_FILE_NAME_def outputFile_def)

end
